theory Spec2Isabelle
  imports Main "HOL-Library.Sublist" "HOL-Library.AList" "HOL-Library.Word"
begin

unbundle bit_operations_syntax

section \<open>Strings\<close>

text \<open>
  A Python \<open>str\<close> is modelled as a \<open>string\<close>, a list of 8-bit characters read as the code
  points 0 to 255. Within that range \<open>\d\<close> is exactly \<open>0\<close> to \<open>9\<close>, \<open>str.lower\<close> moves
  \<open>A\<close> to \<open>Z\<close> and the upper-case letters of Latin-1, and a case-insensitive literal
  matches its two ASCII cases. Console output (\<open>print\<close>) is not modelled.
\<close>

definition newline :: char where
  "newline = CHR 0x0A"

definition is_digit :: "char \<Rightarrow> bool" where
  "is_digit c = (c \<in> set ''0123456789'')"

definition upper_chars :: string where
  "upper_chars = ''ABCDEFGHIJKLMNOPQRSTUVWXYZ'' @
    [CHR 0xC0, CHR 0xC1, CHR 0xC2, CHR 0xC3, CHR 0xC4, CHR 0xC5, CHR 0xC6, CHR 0xC7,
     CHR 0xC8, CHR 0xC9, CHR 0xCA, CHR 0xCB, CHR 0xCC, CHR 0xCD, CHR 0xCE, CHR 0xCF,
     CHR 0xD0, CHR 0xD1, CHR 0xD2, CHR 0xD3, CHR 0xD4, CHR 0xD5, CHR 0xD6, CHR 0xD8,
     CHR 0xD9, CHR 0xDA, CHR 0xDB, CHR 0xDC, CHR 0xDD, CHR 0xDE]"

definition lower_chars :: string where
  "lower_chars = ''abcdefghijklmnopqrstuvwxyz'' @
    [CHR 0xE0, CHR 0xE1, CHR 0xE2, CHR 0xE3, CHR 0xE4, CHR 0xE5, CHR 0xE6, CHR 0xE7,
     CHR 0xE8, CHR 0xE9, CHR 0xEA, CHR 0xEB, CHR 0xEC, CHR 0xED, CHR 0xEE, CHR 0xEF,
     CHR 0xF0, CHR 0xF1, CHR 0xF2, CHR 0xF3, CHR 0xF4, CHR 0xF5, CHR 0xF6, CHR 0xF8,
     CHR 0xF9, CHR 0xFA, CHR 0xFB, CHR 0xFC, CHR 0xFD, CHR 0xFE]"

text \<open>\<open>str.lower\<close> on one character: the upper-case letters and their lower-case forms.\<close>

definition chr_lower :: "char \<Rightarrow> char" where
  "chr_lower c = (case map_of (zip upper_chars lower_chars) c of Some l \<Rightarrow> l | None \<Rightarrow> c)"

definition str_lower :: "string \<Rightarrow> string" where
  "str_lower s = map chr_lower s"

text \<open>\<open>s.find(sub)\<close>: the lowest index at which \<open>sub\<close> occurs in \<open>s\<close>, or \<open>-1\<close>.\<close>

fun str_find :: "string \<Rightarrow> string \<Rightarrow> int" where
  "str_find [] sub = (if sub = [] then 0 else - 1)"
| "str_find (c # cs) sub =
     (if prefix sub (c # cs) then 0
      else (let r = str_find cs sub in if r = - 1 then - 1 else r + 1))"

text \<open>\<open>sub in s\<close>.\<close>

fun str_in :: "string \<Rightarrow> string \<Rightarrow> bool" where
  "str_in sub [] = (sub = [])"
| "str_in sub (c # cs) = (prefix sub (c # cs) \<or> str_in sub cs)"

section \<open>The regular expressions of the program\<close>

text \<open>
  The four patterns of har_parse.py are sequences of single characters, of one greedy
  \<open>+\<close> over a character class, and of \<open>$\<close>. \<open>rmatch\<close> is the backtracking matcher on
  such sequences, anchored at the head of the string: it returns the number of characters
  of the match that Python's \<open>re\<close> finds there. A greedy \<open>+\<close> first tries to take one
  more character and only then goes on with the rest of the pattern. Without
  \<open>re.MULTILINE\<close>, \<open>$\<close> matches at the end of the string and before a newline that ends
  the string.
\<close>

datatype item = One "char \<Rightarrow> bool" | Many1 "char \<Rightarrow> bool" | Eol

fun rmatch :: "item list \<Rightarrow> string \<Rightarrow> nat option" where
  "rmatch [] s = Some 0"
| "rmatch (One p # r) [] = None"
| "rmatch (One p # r) (c # cs) = (if p c then map_option Suc (rmatch r cs) else None)"
| "rmatch (Many1 p # r) [] = None"
| "rmatch (Many1 p # r) (c # cs) =
     (if p c then
        (case rmatch (Many1 p # r) cs of
           Some n \<Rightarrow> Some (Suc n)
         | None \<Rightarrow> map_option Suc (rmatch r cs))
      else None)"
| "rmatch (Eol # r) s = (if s = [] \<or> s = [newline] then rmatch r s else None)"

text \<open>
  \<open>re.sub(pattern, repl, s)\<close> for a pattern that matches no empty string (each pattern
  here starts with a literal character) and a replacement without escapes: the string is
  scanned from the left, a match is replaced and the scan goes on behind it, an unmatched
  character is copied.
\<close>

function re_sub :: "item list \<Rightarrow> string \<Rightarrow> string \<Rightarrow> string" where
  "re_sub pat repl [] = []"
| "re_sub pat repl (c # cs) =
     (case rmatch pat (c # cs) of
        Some n \<Rightarrow> repl @ re_sub pat repl (drop (n - 1) cs)
      | None \<Rightarrow> c # re_sub pat repl cs)"
  by pat_completeness auto
termination
  by (relation "measure (\<lambda>(pat, repl, s). length s)") auto

definition lits :: "string \<Rightarrow> item list" where
  "lits s = map (\<lambda>p. One (\<lambda>c. c = p)) s"

text \<open>\<open>'\?.+$'\<close>\<close>

definition qstring_re :: "item list" where
  "qstring_re = [One (\<lambda>c. c = CHR ''?''), Many1 (\<lambda>c. c \<noteq> newline), Eol]"

text \<open>\<open>'/version\d+/'\<close>\<close>

definition version_re :: "item list" where
  "version_re = lits ''/version'' @ [Many1 is_digit, One (\<lambda>c. c = CHR ''/'')]"

text \<open>\<open>'/v\d+/'\<close>\<close>

definition v_re :: "item list" where
  "v_re = lits ''/v'' @ [Many1 is_digit, One (\<lambda>c. c = CHR ''/'')]"

text \<open>\<open>re.compile('^(https://[^/]+)', re.IGNORECASE)\<close>, used with \<open>re.match\<close>.\<close>

definition domain :: "item list" where
  "domain = map (\<lambda>p. One (\<lambda>c. chr_lower c = p)) ''https://'' @ [Many1 (\<lambda>c. c \<noteq> CHR ''/'')]"

definition qmarker :: string where
  "qmarker = ''[qstring redacted]''"

section \<open>The URL normalisation of getJS\<close>

text \<open>Line 81: the query string is replaced by the marker.\<close>

definition redact_query :: "string \<Rightarrow> string" where
  "redact_query s = re_sub qstring_re qmarker s"

text \<open>
  Lines 64 to 68: \<open>page_domain\<close> is group 1 of the match of \<open>domain\<close> on the page title,
  and stays \<open>""\<close> when there is no match.
\<close>

definition find_domain :: "string \<Rightarrow> nat option" where
  "find_domain title = rmatch domain title"

definition page_domain_of :: "string \<Rightarrow> string" where
  "page_domain_of title = (case find_domain title of Some n \<Rightarrow> take n title | None \<Rightarrow> [])"

text \<open>
  Lines 78 to 95. \<open>if url.find(page_domain):\<close> takes its first branch when \<open>find\<close>
  returns anything but 0.
\<close>

definition normalize_url :: "string \<Rightarrow> string \<Rightarrow> string" where
  "normalize_url page_domain raw =
     (let url = redact_query raw in
      if str_find url page_domain \<noteq> 0 then url
      else re_sub v_re ''/v9999999999/'' (re_sub version_re ''/version9999999999/'' url))"

section \<open>The capture document\<close>

text \<open>
  The parsed HAR file, with the keys that getJS reads: \<open>log.pages[].title\<close>,
  \<open>log.pages[].startedDateTime\<close>, \<open>log.entries[].request.url\<close>,
  \<open>request.headers[]\<close>, \<open>response.headers[]\<close>, \<open>response.content.text\<close> (optional)
  and \<open>response.content.size\<close>.
\<close>

record header =
  hname :: string
  hvalue :: string

record content =
  ctext :: "string option"
  csize :: int

record request =
  url :: string
  req_headers :: "header list"

record response =
  resp_headers :: "header list"
  content :: content

record entry =
  request :: request
  response :: response

record page =
  title :: string
  startedDateTime :: string

record har_log =
  pages :: "page list"
  entries :: "entry list"

record har =
  hlog :: har_log

section \<open>hashlib.md5\<close>

text \<open>
  The library's MD5 (RFC 1321) on bytes: padding, the 64 steps on each 64-byte block,
  the digest as 16 bytes and its lower-case hexadecimal form. An \<open>md5\<close> object is the
  list of the bytes given to \<open>update\<close> so far, and \<open>hexdigest\<close> hashes that list.
\<close>

type_synonym byte = "8 word"
type_synonym u32 = "32 word"

text \<open>\<open>str.encode('utf-8')\<close> on the code points 0 to 255.\<close>

definition utf8_char :: "char \<Rightarrow> byte list" where
  "utf8_char c = (let n = (of_char c :: nat) in
     if n < 128 then [of_nat n] else [of_nat (192 + n div 64), of_nat (128 + n mod 64)])"

definition utf8 :: "string \<Rightarrow> byte list" where
  "utf8 s = concat (map utf8_char s)"

definition md5_K :: "u32 list" where
  "md5_K = [0xd76aa478, 0xe8c7b756, 0x242070db, 0xc1bdceee, 0xf57c0faf, 0x4787c62a,
     0xa8304613, 0xfd469501, 0x698098d8, 0x8b44f7af, 0xffff5bb1, 0x895cd7be, 0x6b901122,
     0xfd987193, 0xa679438e, 0x49b40821, 0xf61e2562, 0xc040b340, 0x265e5a51, 0xe9b6c7aa,
     0xd62f105d, 0x02441453, 0xd8a1e681, 0xe7d3fbc8, 0x21e1cde6, 0xc33707d6, 0xf4d50d87,
     0x455a14ed, 0xa9e3e905, 0xfcefa3f8, 0x676f02d9, 0x8d2a4c8a, 0xfffa3942, 0x8771f681,
     0x6d9d6122, 0xfde5380c, 0xa4beea44, 0x4bdecfa9, 0xf6bb4b60, 0xbebfbc70, 0x289b7ec6,
     0xeaa127fa, 0xd4ef3085, 0x04881d05, 0xd9d4d039, 0xe6db99e5, 0x1fa27cf8, 0xc4ac5665,
     0xf4292244, 0x432aff97, 0xab9423a7, 0xfc93a039, 0x655b59c3, 0x8f0ccc92, 0xffeff47d,
     0x85845dd1, 0x6fa87e4f, 0xfe2ce6e0, 0xa3014314, 0x4e0811a1, 0xf7537e82, 0xbd3af235,
     0x2ad7d2bb, 0xeb86d391]"

definition md5_s :: "nat list" where
  "md5_s = [7, 12, 17, 22, 7, 12, 17, 22, 7, 12, 17, 22, 7, 12, 17, 22,
     5, 9, 14, 20, 5, 9, 14, 20, 5, 9, 14, 20, 5, 9, 14, 20,
     4, 11, 16, 23, 4, 11, 16, 23, 4, 11, 16, 23, 4, 11, 16, 23,
     6, 10, 15, 21, 6, 10, 15, 21, 6, 10, 15, 21, 6, 10, 15, 21]"

definition rotl :: "u32 \<Rightarrow> nat \<Rightarrow> u32" where
  "rotl x n = push_bit n x OR drop_bit (32 - n) x"

definition md5_mix :: "nat \<Rightarrow> u32 \<Rightarrow> u32 \<Rightarrow> u32 \<Rightarrow> u32" where
  "md5_mix i B C D =
     (if i < 16 then (B AND C) OR (NOT B AND D)
      else if i < 32 then (D AND B) OR (NOT D AND C)
      else if i < 48 then B XOR C XOR D
      else C XOR (B OR NOT D))"

definition md5_idx :: "nat \<Rightarrow> nat" where
  "md5_idx i =
     (if i < 16 then i
      else if i < 32 then (5 * i + 1) mod 16
      else if i < 48 then (3 * i + 5) mod 16
      else (7 * i) mod 16)"

fun md5_round :: "u32 list \<Rightarrow> nat \<Rightarrow> u32 \<times> u32 \<times> u32 \<times> u32 \<Rightarrow> u32 \<times> u32 \<times> u32 \<times> u32" where
  "md5_round M i (A, B, C, D) =
     (D, B + rotl (md5_mix i B C D + A + md5_K ! i + M ! md5_idx i) (md5_s ! i), B, C)"

fun le_word :: "byte list \<Rightarrow> u32" where
  "le_word [] = 0"
| "le_word (b # bs) = ucast b + 256 * le_word bs"

fun le_words :: "byte list \<Rightarrow> u32 list" where
  "le_words (a # b # c # d # r) = le_word [a, b, c, d] # le_words r"
| "le_words bs = []"

fun md5_block :: "byte list \<Rightarrow> u32 \<times> u32 \<times> u32 \<times> u32 \<Rightarrow> u32 \<times> u32 \<times> u32 \<times> u32" where
  "md5_block blk (a0, b0, c0, d0) =
     (case fold (md5_round (le_words blk)) [0..<64] (a0, b0, c0, d0) of
        (A, B, C, D) \<Rightarrow> (a0 + A, b0 + B, c0 + C, d0 + D))"

fun le_bytes :: "nat \<Rightarrow> nat \<Rightarrow> byte list" where
  "le_bytes 0 n = []"
| "le_bytes (Suc k) n = of_nat (n mod 256) # le_bytes k (n div 256)"

definition md5_pad :: "byte list \<Rightarrow> byte list" where
  "md5_pad bs =
     bs @ [0x80] @ replicate ((119 - length bs mod 64) mod 64) 0 @ le_bytes 8 (8 * length bs)"

function md5_blocks :: "byte list \<Rightarrow> u32 \<times> u32 \<times> u32 \<times> u32 \<Rightarrow> u32 \<times> u32 \<times> u32 \<times> u32" where
  "md5_blocks bs st =
     (if length bs < 64 then st else md5_blocks (drop 64 bs) (md5_block (take 64 bs) st))"
  by pat_completeness auto
termination
  by (relation "measure (\<lambda>(bs, st). length bs)") auto

definition md5_digest :: "byte list \<Rightarrow> byte list" where
  "md5_digest bs =
     (case md5_blocks (md5_pad bs) (0x67452301, 0xefcdab89, 0x98badcfe, 0x10325476) of
        (a, b, c, d) \<Rightarrow> concat (map (\<lambda>w. le_bytes 4 (unat w)) [a, b, c, d]))"

definition hex_digit :: "nat \<Rightarrow> char" where
  "hex_digit n = ''0123456789abcdef'' ! n"

definition hex_byte :: "byte \<Rightarrow> string" where
  "hex_byte b = [hex_digit (unat b div 16), hex_digit (unat b mod 16)]"

definition hexdigest :: "byte list \<Rightarrow> string" where
  "hexdigest m = concat (map hex_byte (md5_digest m))"

text \<open>The fingerprint of a body text: \<open>md5(text.encode('utf-8')).hexdigest()\<close>.\<close>

definition fingerprint :: "string \<Rightarrow> string" where
  "fingerprint body = hexdigest (utf8 body)"

section \<open>getJS\<close>

record js_file =
  jsize :: int
  hash :: string
  jtext :: string
  referer :: string

record file_details =
  fd_title :: string
  fd_startedDateTime :: string

record snapshot =
  JSFiles :: "(string \<times> js_file) list"
  fileDetails :: file_details

datatype error = IndexError

definition placeholder :: string where
  "placeholder = ''ADDED TEXT TO ANOMOLY''"

text \<open>Lines 127 to 131: the last \<open>referer\<close> request header, its query string redacted.\<close>

definition referer_of :: "header list \<Rightarrow> string" where
  "referer_of hs =
     fold (\<lambda>h r. if str_lower (hname h) = ''referer'' then redact_query (hvalue h) else r) hs []"

text \<open>
  Lines 102 and 103 select the headers named \<open>content-type\<close>, in any letter case, whose
  value contains \<open>javascript\<close>. Lines 100 to 131 are the body of the loop over the response headers. The state is the
  \<open>md5\<close> object \<open>m\<close> of the entry, the entry's \<open>response.content\<close> (line 114 writes to
  it) and the dictionary \<open>JSFiles\<close>, a list of pairs in insertion order.
\<close>

definition js_header :: "header \<Rightarrow> bool" where
  "js_header h = (str_lower (hname h) = ''content-type'' \<and> str_in ''javascript'' (hvalue h))"

definition header_step ::
  "string \<Rightarrow> header list \<Rightarrow> header \<Rightarrow> byte list \<times> content \<times> (string \<times> js_file) list
     \<Rightarrow> byte list \<times> content \<times> (string \<times> js_file) list" where
  "header_step u rhs h st = (case st of (m, c, files) \<Rightarrow>
     if js_header h then
       (case (case ctext c of None \<Rightarrow> (placeholder, c\<lparr>ctext := Some placeholder\<rparr>)
                             | Some t \<Rightarrow> (t, c)) of
          (t, c') \<Rightarrow>
            (let m' = m @ utf8 t in
             (m', c',
              AList.update u
                \<lparr>jsize = csize c', hash = hexdigest m', jtext = ''redacted'',
                 referer = referer_of rhs\<rparr> files)))
     else st)"

text \<open>
  Lines 73 to 131, the body of the loop over the entries: a fresh \<open>md5\<close> object, the
  normalised URL, then the loop over the response headers. The entry is returned as the
  loop leaves it.
\<close>

definition entry_step ::
  "string \<Rightarrow> entry \<Rightarrow> entry list \<times> (string \<times> js_file) list
     \<Rightarrow> entry list \<times> (string \<times> js_file) list" where
  "entry_step page_domain e st = (case st of (seen, files) \<Rightarrow>
     (case fold (header_step (normalize_url page_domain (url (request e)))
                   (req_headers (request e)))
             (resp_headers (response e)) ([], content (response e), files) of
        (m, c, files') \<Rightarrow>
          (seen @ [e\<lparr>response := (response e)\<lparr>content := c\<rparr>\<rparr>], files')))"

text \<open>
  getJS returns the document as the call leaves it together with the dictionary it
  builds; \<open>pages[0]\<close> of an empty list raises. \<open>debug\<close> only switches prints on.
\<close>

definition getJS :: "har \<Rightarrow> bool \<Rightarrow> error + har \<times> snapshot" where
  "getJS outerDict debug =
     (case pages (hlog outerDict) of
        [] \<Rightarrow> Inl IndexError
      | p # ps \<Rightarrow>
          (case fold (entry_step (page_domain_of (title p))) (entries (hlog outerDict)) ([], []) of
             (es, files) \<Rightarrow>
               Inr (outerDict\<lparr>hlog := (hlog outerDict)\<lparr>entries := es\<rparr>\<rparr>,
                    \<lparr>JSFiles = files,
                     fileDetails = \<lparr>fd_title = title p,
                                    fd_startedDateTime = startedDateTime p\<rparr>\<rparr>)))"

section \<open>compareJS\<close>

record hash_pair =
  baseline :: string
  compare :: string

record differences =
  newJS :: "(string \<times> int) list"
  hashDifferentJS :: "(string \<times> hash_pair) list"

text \<open>
  Lines 166 to 173, the body of the loop over the keys of \<open>compDict\<close>. A key of the loop
  is a key of \<open>compDict\<close>, so the lookup \<open>compDict[key]\<close> finds it.
\<close>

definition compare_step ::
  "(string \<times> js_file) list \<Rightarrow> (string \<times> js_file) list \<Rightarrow> string \<Rightarrow> differences \<Rightarrow> differences" where
  "compare_step baseDict compDict key d =
     (case map_of baseDict key of
        None \<Rightarrow> d\<lparr>newJS := AList.update key 1 (newJS d)\<rparr>
      | Some b \<Rightarrow>
          (case map_of compDict key of
             None \<Rightarrow> d
           | Some c \<Rightarrow>
               if hash b \<noteq> hash c
               then d\<lparr>hashDifferentJS :=
                        AList.update key \<lparr>baseline = hash b, compare = hash c\<rparr> (hashDifferentJS d)\<rparr>
               else d))"

definition compareJS :: "(string \<times> js_file) list \<Rightarrow> (string \<times> js_file) list \<Rightarrow> differences" where
  "compareJS baseDict compDict =
     fold (compare_step baseDict compDict) (map fst compDict) \<lparr>newJS = [], hashDifferentJS = []\<rparr>"

text \<open>What the loop of compareJS records for one key of \<open>compDict\<close>.\<close>

definition changed_at :: "(string \<times> js_file) list \<Rightarrow> (string \<times> js_file) list \<Rightarrow> string \<Rightarrow> hash_pair option" where
  "changed_at b c k =
     (case map_of b k of
        None \<Rightarrow> None
      | Some x \<Rightarrow>
          (case map_of c k of
             None \<Rightarrow> None
           | Some y \<Rightarrow> if hash x \<noteq> hash y then Some \<lparr>baseline = hash x, compare = hash y\<rparr> else None))"

text \<open>What may follow the \<open>?\<close> of a match of \<open>qstring_re\<close>: a non-empty line that ends the string, a final newline apart.\<close>

definition qtail :: "string \<Rightarrow> bool" where
  "qtail r = (takeWhile (\<lambda>c. c \<noteq> newline) r \<noteq> [] \<and>
     (dropWhile (\<lambda>c. c \<noteq> newline) r = [] \<or> dropWhile (\<lambda>c. c \<noteq> newline) r = [newline]))"

text \<open>
  What getJS does with one entry, read off the two loops: the number of response headers
  that lines 102 and 103 select, the text that is hashed, the record stored under the
  normalised URL, and the entry as the loops leave it.
\<close>

definition js_count :: "entry \<Rightarrow> nat" where
  "js_count e = length (filter js_header (resp_headers (response e)))"

definition body_of :: "content \<Rightarrow> string" where
  "body_of c = (case ctext c of None \<Rightarrow> placeholder | Some t \<Rightarrow> t)"

definition asset_of :: "entry \<Rightarrow> js_file" where
  "asset_of e =
     \<lparr>jsize = csize (content (response e)),
      hash = hexdigest (concat (replicate (js_count e) (utf8 (body_of (content (response e)))))),
      jtext = ''redacted'',
      referer = referer_of (req_headers (request e))\<rparr>"

definition mark_entry :: "entry \<Rightarrow> entry" where
  "mark_entry e =
     (if js_count e = 0 then e
      else e\<lparr>response := (response e)\<lparr>content :=
             (content (response e))\<lparr>ctext := Some (body_of (content (response e)))\<rparr>\<rparr>\<rparr>)"

definition record_entry :: "string \<Rightarrow> entry \<Rightarrow> (string \<times> js_file) list \<Rightarrow> (string \<times> js_file) list" where
  "record_entry page_domain e files =
     (if js_count e = 0 then files
      else AList.update (normalize_url page_domain (url (request e))) (asset_of e) files)"

section \<open>Sample data\<close>

definition js :: "string \<Rightarrow> js_file" where
  "js h = \<lparr>jsize = 1, hash = h, jtext = ''redacted'', referer = []\<rparr>"

definition js_hdr :: header where
  "js_hdr = \<lparr>hname = ''Content-Type'', hvalue = ''application/javascript''\<rparr>"

definition sample_entry :: "string \<Rightarrow> header list \<Rightarrow> string option \<Rightarrow> entry" where
  "sample_entry u hs t =
     \<lparr>request = \<lparr>url = u, req_headers = []\<rparr>,
      response = \<lparr>resp_headers = hs, content = \<lparr>ctext = t, csize = 1\<rparr>\<rparr>\<rparr>"

definition sample_har :: "string \<Rightarrow> entry list \<Rightarrow> har" where
  "sample_har t es =
     \<lparr>hlog = \<lparr>pages = [\<lparr>title = t, startedDateTime = ''2020-05-01T10:00:00.000Z''\<rparr>],
              entries = es\<rparr>\<rparr>"

definition document_after :: "error + har \<times> snapshot \<Rightarrow> har option" where
  "document_after r = (case r of Inl e \<Rightarrow> None | Inr (d, s) \<Rightarrow> Some d)"

definition hashes_of :: "error + har \<times> snapshot \<Rightarrow> (string \<times> string) list" where
  "hashes_of r = (case r of Inl e \<Rightarrow> [] | Inr (d, s) \<Rightarrow> map (\<lambda>(k, f). (k, hash f)) (JSFiles s))"

section \<open>Properties of compareJS\<close>

lemma compare_step_new:
  "fst ` set (newJS (compare_step b c k d)) =
     fst ` set (newJS d) \<union> (if map_of b k = None then {k} else {})"
  by (auto simp: compare_step_def AList.dom_update split: option.splits)

lemma compare_fold_new:
  "fst ` set (newJS (fold (compare_step b c) ks d)) =
     fst ` set (newJS d) \<union> {k \<in> set ks. map_of b k = None}"
proof (induction ks arbitrary: d)
  case Nil
  then show ?case by simp
next
  case (Cons k ks)
  show ?case
    unfolding fold_simps Cons.IH compare_step_new by auto
qed

lemma compare_step_changed:
  "map_of (hashDifferentJS (compare_step b c k d)) k' =
     (if k' = k \<and> changed_at b c k \<noteq> None then changed_at b c k
      else map_of (hashDifferentJS d) k')"
  by (auto simp: compare_step_def changed_at_def AList.update_conv' split: option.splits)

lemma compare_fold_changed:
  "map_of (hashDifferentJS (fold (compare_step b c) ks d)) k' =
     (if k' \<in> set ks \<and> changed_at b c k' \<noteq> None then changed_at b c k'
      else map_of (hashDifferentJS d) k')"
proof (induction ks arbitrary: d)
  case Nil
  then show ?case by simp
next
  case (Cons k ks)
  show ?case
    unfolding fold_simps Cons.IH compare_step_changed by auto
qed

text \<open>
  C3. For a key of the comparison dictionary, compareJS puts the key into \<open>newJS\<close>
  exactly when the baseline dictionary lacks it, and into \<open>hashDifferentJS\<close>, with the
  baseline hash and the comparison hash, exactly when the baseline has it with another
  hash; a key with equal hashes is in neither.
\<close>

theorem compareJS_classifies:
  assumes "map_of compDict k = Some c"
  shows "(k \<in> fst ` set (newJS (compareJS baseDict compDict))) = (map_of baseDict k = None) \<and>
         map_of (hashDifferentJS (compareJS baseDict compDict)) k =
           (case map_of baseDict k of
              None \<Rightarrow> None
            | Some b \<Rightarrow> if hash b \<noteq> hash c
                        then Some \<lparr>baseline = hash b, compare = hash c\<rparr> else None)"
proof -
  from map_of_SomeD [OF assms] have k: "k \<in> fst ` set compDict"
    by force
  have "(k \<in> fst ` set (newJS (compareJS baseDict compDict))) = (map_of baseDict k = None)"
    using k by (simp add: compareJS_def compare_fold_new)
  moreover have "map_of (hashDifferentJS (compareJS baseDict compDict)) k =
           (case map_of baseDict k of
              None \<Rightarrow> None
            | Some b \<Rightarrow> if hash b \<noteq> hash c
                        then Some \<lparr>baseline = hash b, compare = hash c\<rparr> else None)"
    using k assms by (simp add: compareJS_def compare_fold_changed changed_at_def split: option.splits)
  ultimately show ?thesis by simp
qed

theorem compareJS_classifies_witness:
  "map_of [(''B'', js ''h1''), (''X'', js ''h2'')] ''X'' = Some (js ''h2'') \<and>
   ''X'' \<notin> fst ` set (newJS (compareJS [(''A'', js ''h1''), (''X'', js ''h1'')]
                                        [(''B'', js ''h1''), (''X'', js ''h2'')])) \<and>
   map_of (hashDifferentJS (compareJS [(''A'', js ''h1''), (''X'', js ''h1'')]
                                      [(''B'', js ''h1''), (''X'', js ''h2'')])) ''X''
     = Some \<lparr>baseline = ''h1'', compare = ''h2''\<rparr>"
  using compareJS_classifies
    [of "[(''B'', js ''h1''), (''X'', js ''h2'')]" "''X''" "js ''h2''"
        "[(''A'', js ''h1''), (''X'', js ''h1'')]"]
  by (simp add: js_def)

text \<open>
  C4. A key of the baseline dictionary that the comparison dictionary lacks is neither
  in \<open>newJS\<close> nor in \<open>hashDifferentJS\<close>: the loop runs over the keys of the comparison
  dictionary only.
\<close>

theorem compareJS_ignores_removed:
  assumes "k \<in> fst ` set baseDict" and "k \<notin> fst ` set compDict"
  shows "k \<notin> fst ` set (newJS (compareJS baseDict compDict)) \<and>
         map_of (hashDifferentJS (compareJS baseDict compDict)) k = None"
  using assms by (simp add: compareJS_def compare_fold_new compare_fold_changed)

theorem compareJS_ignores_removed_witness:
  "''A'' \<in> fst ` set [(''A'', js ''h1'')] \<and>
   ''A'' \<notin> fst ` set [(''B'', js ''h1'')] \<and>
   ''A'' \<notin> fst ` set (newJS (compareJS [(''A'', js ''h1'')] [(''B'', js ''h1'')])) \<and>
   map_of (hashDifferentJS (compareJS [(''A'', js ''h1'')] [(''B'', js ''h1'')])) ''A'' = None"
  using compareJS_ignores_removed [of "''A''" "[(''A'', js ''h1'')]" "[(''B'', js ''h1'')]"]
  by simp

section \<open>The matches of the patterns\<close>

lemma rmatch_ones:
  "rmatch (map (\<lambda>p. One (\<lambda>c. f c = p)) k @ r) s =
     (if length k \<le> length s \<and> map f (take (length k) s) = k
      then map_option (\<lambda>n. length k + n) (rmatch r (drop (length k) s)) else None)"
proof (induction k arbitrary: s)
  case Nil
  then show ?case by (cases "rmatch r s") auto
next
  case (Cons p k)
  show ?case
  proof (cases s)
    case Nil
    then show ?thesis by simp
  next
    case (Cons c cs)
    then show ?thesis
      by (auto simp: Cons.IH option.map_comp comp_def)
  qed
qed

lemma rmatch_lits:
  "rmatch (lits k @ r) s =
     (if prefix k s then map_option (\<lambda>n. length k + n) (rmatch r (drop (length k) s)) else None)"
proof -
  have "(length k \<le> length s \<and> take (length k) s = k) = prefix k s"
  proof
    assume "length k \<le> length s \<and> take (length k) s = k"
    then have "s = k @ drop (length k) s"
      by (metis append_take_drop_id)
    then show "prefix k s" by (rule prefixI)
  next
    assume "prefix k s"
    then show "length k \<le> length s \<and> take (length k) s = k"
      by (auto simp: prefix_def)
  qed
  then show ?thesis
    using rmatch_ones [of "\<lambda>c. c" k r s] by (simp add: lits_def)
qed

lemma rmatch_many1:
  "rmatch [Many1 p] s = (if takeWhile p s = [] then None else Some (length (takeWhile p s)))"
  by (induction s) auto

lemma rmatch_many1_one:
  assumes "\<And>c. q c \<Longrightarrow> \<not> p c"
  shows "rmatch [Many1 p, One q] s =
     (if takeWhile p s \<noteq> [] \<and> dropWhile p s \<noteq> [] \<and> q (hd (dropWhile p s))
      then Some (Suc (length (takeWhile p s))) else None)"
proof (induction s)
  case Nil
  then show ?case by simp
next
  case (Cons c cs)
  show ?case
  proof (cases "p c")
    case False
    then show ?thesis by simp
  next
    case True
    have one: "rmatch [One q] cs = (if cs \<noteq> [] \<and> q (hd cs) then Some 1 else None)"
      by (cases cs) auto
    show ?thesis
    proof (cases "takeWhile p cs = []")
      case t: True
      then have "dropWhile p cs = cs"
        by (metis takeWhile_dropWhile_id append_Nil)
      with t True show ?thesis
        by (simp add: Cons.IH one)
    next
      case f: False
      then obtain d ds where cs: "cs = d # ds" and "p d"
        by (cases cs) (auto split: if_splits)
      with assms have "rmatch [One q] cs = None" by auto
      with f True show ?thesis
        by (simp add: Cons.IH)
    qed
  qed
qed

lemma rmatch_many1_eol:
  "rmatch [Many1 (\<lambda>c. c \<noteq> newline), Eol] s =
     (if qtail s then Some (length (takeWhile (\<lambda>c. c \<noteq> newline) s)) else None)"
proof (induction s)
  case Nil
  then show ?case by (simp add: qtail_def)
next
  case (Cons c cs)
  show ?case
  proof (cases "c = newline")
    case True
    then show ?thesis by (simp add: qtail_def)
  next
    case False
    have eol: "rmatch [Eol] cs = (if cs = [] \<or> cs = [newline] then Some 0 else None)"
      by simp
    show ?thesis
    proof (cases "takeWhile (\<lambda>c. c \<noteq> newline) cs = []")
      case t: True
      then have d: "dropWhile (\<lambda>c. c \<noteq> newline) cs = cs"
        by (metis takeWhile_dropWhile_id append_Nil)
      from t d False show ?thesis
        by (simp add: Cons.IH qtail_def)
    next
      case f: False
      then have "cs \<noteq> []" "cs \<noteq> [newline]" by auto
      with f False show ?thesis
        by (auto simp: Cons.IH qtail_def)
    qed
  qed
qed

lemma rmatch_qstring:
  "rmatch qstring_re (c # r) =
     (if c = CHR ''?'' \<and> qtail r then Some (Suc (length (takeWhile (\<lambda>c. c \<noteq> newline) r))) else None)"
  using rmatch_many1_eol [of r]
  by (simp add: qstring_re_def del: rmatch.simps(5))

section \<open>Query-string redaction\<close>

lemmas re_defs = qstring_re_def version_re_def v_re_def domain_def lits_def qmarker_def
  newline_def is_digit_def redact_query_def normalize_url_def page_domain_of_def find_domain_def
  chr_lower_def upper_chars_def lower_chars_def

lemma redact_query_no_q:
  "CHR ''?'' \<notin> set p \<Longrightarrow> redact_query (p @ s) = p @ redact_query s"
  by (induction p) (auto simp: redact_query_def rmatch_qstring)

lemma redact_query_at_q:
  assumes "qtail r"
  shows "redact_query (CHR ''?'' # r) = qmarker @ dropWhile (\<lambda>c. c \<noteq> newline) r"
proof -
  have d: "drop (length (takeWhile (\<lambda>c. c \<noteq> newline) r)) r = dropWhile (\<lambda>c. c \<noteq> newline) r"
    by (simp add: dropWhile_eq_drop)
  have t: "re_sub qstring_re qmarker t = t" if "t = [] \<or> t = [newline]" for t
    using that by (auto simp: rmatch_qstring newline_def)
  have "re_sub qstring_re qmarker (dropWhile (\<lambda>c. c \<noteq> newline) r) = dropWhile (\<lambda>c. c \<noteq> newline) r"
    by (rule t) (use assms in \<open>simp add: qtail_def\<close>)
  with assms d show ?thesis
    by (simp add: redact_query_def rmatch_qstring)
qed

lemma qtail_line: "q \<noteq> [] \<Longrightarrow> newline \<notin> set q \<Longrightarrow> qtail q"
  by (cases q) (auto simp: qtail_def)

lemma dropWhile_line: "newline \<notin> set q \<Longrightarrow> dropWhile (\<lambda>c. c \<noteq> newline) q = []"
  by auto

text \<open>
  C7, as amended. For two raw URLs in each of which the first \<open>?\<close> is followed by at
  least one character and by no newline, line 81 gives the part before the first \<open>?\<close>
  followed by \<open>[qstring redacted]\<close>; two URLs that differ only behind the first \<open>?\<close>
  get the same canonical URL, and after line 81 two URLs are equal exactly when they
  agree before the first \<open>?\<close>. The pattern \<open>\?.+$\<close> does not match a \<open>?\<close> that ends
  the URL, and a URL without \<open>?\<close> that ends in the marker meets a redacted one.
\<close>

theorem redact_query_prefix_marker:
  assumes "CHR ''?'' \<notin> set p1" and "CHR ''?'' \<notin> set p2"
    and "q1 \<noteq> []" and "q2 \<noteq> []" and "newline \<notin> set q1" and "newline \<notin> set q2"
  shows "redact_query (p1 @ CHR ''?'' # q1) = p1 @ qmarker \<and>
         normalize_url d (p1 @ CHR ''?'' # q1) = normalize_url d (p1 @ CHR ''?'' # q2) \<and>
         (redact_query (p1 @ CHR ''?'' # q1) = redact_query (p2 @ CHR ''?'' # q2)) = (p1 = p2)"
proof -
  have r: "redact_query (p @ CHR ''?'' # q) = p @ qmarker"
    if "CHR ''?'' \<notin> set p" "q \<noteq> []" "newline \<notin> set q" for p q
    using that by (simp add: redact_query_no_q redact_query_at_q qtail_line dropWhile_line)
  show ?thesis
    using assms by (simp add: r normalize_url_def)
qed

theorem redact_query_prefix_marker_witness:
  "CHR ''?'' \<notin> set ''http://h/a.js'' \<and> CHR ''?'' \<notin> set ''http://h/b.js'' \<and>
   ''x=1'' \<noteq> [] \<and> ''y=2'' \<noteq> [] \<and> newline \<notin> set ''x=1'' \<and> newline \<notin> set ''y=2'' \<and>
   redact_query ''http://h/a.js?x=1'' = ''http://h/a.js[qstring redacted]'' \<and>
   normalize_url ''https://h'' ''http://h/a.js?x=1'' = normalize_url ''https://h'' ''http://h/a.js?y=2'' \<and>
   redact_query ''http://h/a.js?x=1'' \<noteq> redact_query ''http://h/b.js?y=2''"
  using redact_query_prefix_marker [of "''http://h/a.js''" "''http://h/b.js''" "''x=1''" "''y=2''" "''https://h''"]
  by (simp add: re_defs)

theorem redact_query_counterexample:
  "takeWhile (\<lambda>c. c \<noteq> CHR ''?'') ''http://h/a.js?'' = takeWhile (\<lambda>c. c \<noteq> CHR ''?'') ''http://h/a.js?x=1'' \<and>
   redact_query ''http://h/a.js?'' = ''http://h/a.js?'' \<and>
   redact_query ''http://h/a.js?x=1'' = ''http://h/a.js[qstring redacted]'' \<and>
   normalize_url ''https://example.com'' ''http://h/a.js?''
     \<noteq> normalize_url ''https://example.com'' ''http://h/a.js?x=1'' \<and>
   takeWhile (\<lambda>c. c \<noteq> CHR ''?'') ''http://h/a.js[qstring redacted]''
     \<noteq> takeWhile (\<lambda>c. c \<noteq> CHR ''?'') ''http://h/a.js?x=1'' \<and>
   normalize_url ''https://example.com'' ''http://h/a.js[qstring redacted]''
     = normalize_url ''https://example.com'' ''http://h/a.js?x=1''"
  by (simp add: re_defs)

section \<open>Origin detection\<close>

lemma str_find_ge: "- 1 \<le> str_find s d"
  by (induction s) (auto simp: Let_def)

lemma str_find_zero: "(str_find s d = 0) = prefix d s"
proof (cases s)
  case Nil
  then show ?thesis by simp
next
  case (Cons c cs)
  with str_find_ge [of cs d] show ?thesis
    by (auto simp: Let_def)
qed

lemma takeWhile_nonempty: "(takeWhile p xs \<noteq> []) = (xs \<noteq> [] \<and> p (hd xs))"
  by (cases xs) auto

lemma find_domain_eq:
  "find_domain t =
     (if 8 < length t \<and> str_lower (take 8 t) = ''https://'' \<and> t ! 8 \<noteq> CHR ''/''
      then Some (8 + length (takeWhile (\<lambda>c. c \<noteq> CHR ''/'') (drop 8 t))) else None)"
proof -
  define H where "H = (str_lower (take 8 t) = ''https://'')"
  have l: "length ''https://'' = 8" by simp
  have "rmatch domain t =
     (if length ''https://'' \<le> length t \<and> map chr_lower (take (length ''https://'') t) = ''https://''
      then map_option (\<lambda>n. length ''https://'' + n)
             (rmatch [Many1 (\<lambda>c. c \<noteq> CHR ''/'')] (drop (length ''https://'') t))
      else None)"
    unfolding domain_def by (rule rmatch_ones)
  then have "rmatch domain t =
     (if 8 \<le> length t \<and> map chr_lower (take 8 t) = ''https://''
      then map_option (\<lambda>n. 8 + n) (rmatch [Many1 (\<lambda>c. c \<noteq> CHR ''/'')] (drop 8 t)) else None)"
    unfolding l .
  then have m: "rmatch domain t =
     (if 8 \<le> length t \<and> H
      then map_option (\<lambda>n. 8 + n) (rmatch [Many1 (\<lambda>c. c \<noteq> CHR ''/'')] (drop 8 t)) else None)"
    by (simp only: H_def str_lower_def)
  have tw: "(takeWhile (\<lambda>c. c \<noteq> CHR ''/'') (drop 8 t) \<noteq> []) = (8 < length t \<and> t ! 8 \<noteq> CHR ''/'')"
    by (auto simp: takeWhile_nonempty hd_drop_conv_nth)
  have "find_domain t =
     (if 8 < length t \<and> H \<and> t ! 8 \<noteq> CHR ''/''
      then Some (8 + length (takeWhile (\<lambda>c. c \<noteq> CHR ''/'') (drop 8 t))) else None)"
    using tw by (auto simp: find_domain_def m rmatch_many1)
  then show ?thesis
    by (simp only: H_def)
qed

lemma take_takeWhile: "take (8 + length (takeWhile p (drop 8 t))) t = take 8 t @ takeWhile p (drop 8 t)"
  by (simp add: take_add takeWhile_eq_take [symmetric])

text \<open>
  C10. Only the https scheme is recognised: \<open>re.match\<close> finds an origin exactly when
  the title starts, in any letter case, with \<open>https://\<close> followed by at least one
  character other than \<open>/\<close>, and \<open>page_domain\<close> is then the title up to the next
  \<open>/\<close>; a title that starts with \<open>http://\<close> gives no origin and \<open>page_domain\<close> stays
  empty. This decides the branch of line 84 for every URL: without an origin every URL
  takes the branch of line 93, with an origin a URL takes it exactly when it starts with
  the origin.
\<close>

theorem origin_only_https:
  "(find_domain t \<noteq> None) =
     (8 < length t \<and> str_lower (take 8 t) = ''https://'' \<and> t ! 8 \<noteq> CHR ''/'') \<and>
   page_domain_of t =
     (if 8 < length t \<and> str_lower (take 8 t) = ''https://'' \<and> t ! 8 \<noteq> CHR ''/''
      then take 8 t @ takeWhile (\<lambda>c. c \<noteq> CHR ''/'') (drop 8 t) else []) \<and>
   (str_lower (take 7 t) = ''http://'' \<longrightarrow> find_domain t = None \<and> page_domain_of t = []) \<and>
   (find_domain t = None \<longrightarrow>
      normalize_url (page_domain_of t) u =
        re_sub v_re ''/v9999999999/'' (re_sub version_re ''/version9999999999/'' (redact_query u))) \<and>
   (find_domain t \<noteq> None \<longrightarrow>
      normalize_url (page_domain_of t) u =
        (if prefix (page_domain_of t) (redact_query u)
         then re_sub v_re ''/v9999999999/'' (re_sub version_re ''/version9999999999/'' (redact_query u))
         else redact_query u))"
proof -
  have http: "str_lower (take 8 t) \<noteq> ''https://''" if "str_lower (take 7 t) = ''http://''"
  proof
    assume "str_lower (take 8 t) = ''https://''"
    then have "take 7 (str_lower (take 8 t)) = ''https:/''" by simp
    then have "str_lower (take 7 t) = ''https:/''"
      by (simp add: str_lower_def take_map)
    with that show False by simp
  qed
  show ?thesis
    using http
    by (auto simp: find_domain_eq page_domain_of_def take_takeWhile normalize_url_def str_find_zero
        simp del: One_nat_def)
qed

theorem origin_only_https_witness:
  "str_lower (take 7 ''HTTP://example.com/shop'') = ''http://'' \<and>
   find_domain ''HTTP://example.com/shop'' = None \<and>
   page_domain_of ''HTTP://example.com/shop'' = [] \<and>
   normalize_url (page_domain_of ''HTTP://example.com/shop'') ''http://cdn.example.com/v12/app.js''
     = re_sub v_re ''/v9999999999/'' (re_sub version_re ''/version9999999999/''
         (redact_query ''http://cdn.example.com/v12/app.js'')) \<and>
   find_domain ''HTTPS://Example.com/shop'' \<noteq> None \<and>
   normalize_url (page_domain_of ''HTTPS://Example.com/shop'') ''http://cdn.example.com/v12/app.js''
     = (if prefix (page_domain_of ''HTTPS://Example.com/shop'')
             (redact_query ''http://cdn.example.com/v12/app.js'')
        then re_sub v_re ''/v9999999999/'' (re_sub version_re ''/version9999999999/''
               (redact_query ''http://cdn.example.com/v12/app.js''))
        else redact_query ''http://cdn.example.com/v12/app.js'')"
proof -
  have h1: "str_lower (take 7 ''HTTP://example.com/shop'') = ''http://''"
    by (simp add: str_lower_def chr_lower_def upper_chars_def lower_chars_def)
  have h2: "find_domain ''HTTPS://Example.com/shop'' \<noteq> None"
    by (simp add: find_domain_def domain_def chr_lower_def upper_chars_def lower_chars_def)
  show ?thesis
    using h1 h2
      origin_only_https [of "''HTTP://example.com/shop''" "''http://cdn.example.com/v12/app.js''"]
      origin_only_https [of "''HTTPS://Example.com/shop''" "''http://cdn.example.com/v12/app.js''"]
    by blast
qed

section \<open>The loops of getJS\<close>

lemma header_step_js:
  "js_header h \<Longrightarrow> header_step u rhs h (m, c, files) =
     (m @ utf8 (body_of c), c\<lparr>ctext := Some (body_of c)\<rparr>,
      AList.update u \<lparr>jsize = csize c, hash = hexdigest (m @ utf8 (body_of c)),
                      jtext = ''redacted'', referer = referer_of rhs\<rparr> files)"
  by (cases c) (auto simp: header_step_def body_of_def Let_def split: option.splits)

lemma header_step_other:
  "\<not> js_header h \<Longrightarrow> header_step u rhs h st = st"
  by (simp add: header_step_def split: prod.splits)

lemma header_fold:
  "fold (header_step u rhs) hs (m, c, files) =
     (if filter js_header hs = [] then (m, c, files)
      else (m @ concat (replicate (length (filter js_header hs)) (utf8 (body_of c))),
            c\<lparr>ctext := Some (body_of c)\<rparr>,
            AList.update u
              \<lparr>jsize = csize c,
               hash = hexdigest (m @ concat (replicate (length (filter js_header hs)) (utf8 (body_of c)))),
               jtext = ''redacted'', referer = referer_of rhs\<rparr> files))"
proof (induction hs arbitrary: m c files)
  case Nil
  then show ?case by simp
next
  case (Cons h hs)
  show ?case
  proof (cases "js_header h")
    case False
    then show ?thesis by (simp add: header_step_other Cons.IH)
  next
    case True
    have b: "body_of (c\<lparr>ctext := Some (body_of c)\<rparr>) = body_of c"
      by (simp add: body_of_def)
    from True show ?thesis
      by (simp add: header_step_js Cons.IH b)
  qed
qed

lemma entry_step_eq:
  "entry_step page_domain e (seen, files) = (seen @ [mark_entry e], record_entry page_domain e files)"
  by (simp add: entry_step_def header_fold mark_entry_def record_entry_def js_count_def asset_of_def)

lemma entry_fold:
  "fold (entry_step page_domain) es (seen, files) =
     (seen @ map mark_entry es, fold (record_entry page_domain) es files)"
  by (induction es arbitrary: seen files) (simp_all add: entry_step_eq)

lemma getJS_eq:
  "getJS outerDict debug =
     (case pages (hlog outerDict) of
        [] \<Rightarrow> Inl IndexError
      | p # ps \<Rightarrow>
          Inr (outerDict\<lparr>hlog := (hlog outerDict)\<lparr>entries := map mark_entry (entries (hlog outerDict))\<rparr>\<rparr>,
               \<lparr>JSFiles = fold (record_entry (page_domain_of (title p))) (entries (hlog outerDict)) [],
                fileDetails = \<lparr>fd_title = title p, fd_startedDateTime = startedDateTime p\<rparr>\<rparr>))"
  by (simp add: getJS_def entry_fold split: list.splits)

lemma js_hdr_js: "js_header js_hdr"
  by (simp add: js_header_def js_hdr_def str_lower_def chr_lower_def upper_chars_def lower_chars_def)

lemma js_count_sample:
  "js_count (sample_entry u [js_hdr] t) = 1"
  "js_count (sample_entry u [js_hdr, js_hdr] t) = 2"
  by (simp_all add: js_count_def sample_entry_def js_hdr_js)

lemma mark_entry_id:
  "js_count e = 0 \<or> ctext (content (response e)) \<noteq> None \<Longrightarrow> mark_entry e = e"
  by (auto simp: mark_entry_def body_of_def)

text \<open>
  C8, as amended. getJS writes to its input: line 114 stores the placeholder as the body
  text of every entry that has a JavaScript content-type header and no body text. The
  document is otherwise left as it was, and a document in which every such entry has a
  body text is unchanged.
\<close>

theorem getJS_document_after:
  assumes "pages (hlog outerDict) \<noteq> []"
  shows "document_after (getJS outerDict debug) =
           Some (outerDict\<lparr>hlog := (hlog outerDict)\<lparr>entries := map mark_entry (entries (hlog outerDict))\<rparr>\<rparr>) \<and>
         ((\<forall>e\<in>set (entries (hlog outerDict)). js_count e = 0 \<or> ctext (content (response e)) \<noteq> None)
            \<longrightarrow> document_after (getJS outerDict debug) = Some outerDict)"
proof -
  from assms have d: "document_after (getJS outerDict debug) =
      Some (outerDict\<lparr>hlog := (hlog outerDict)\<lparr>entries := map mark_entry (entries (hlog outerDict))\<rparr>\<rparr>)"
    by (auto simp: getJS_eq document_after_def split: list.splits)
  moreover have "document_after (getJS outerDict debug) = Some outerDict"
    if "\<forall>e\<in>set (entries (hlog outerDict)). js_count e = 0 \<or> ctext (content (response e)) \<noteq> None"
  proof -
    from that have "map mark_entry (entries (hlog outerDict)) = entries (hlog outerDict)"
      by (intro map_idI) (simp add: mark_entry_id)
    with d show ?thesis by simp
  qed
  ultimately show ?thesis by blast
qed

theorem getJS_document_after_witness:
  "pages (hlog (sample_har ''https://example.com/''
      [sample_entry ''https://example.com/a.js'' [js_hdr] (Some ''a'')])) \<noteq> [] \<and>
   document_after (getJS (sample_har ''https://example.com/''
      [sample_entry ''https://example.com/a.js'' [js_hdr] (Some ''a'')]) False)
     = Some (sample_har ''https://example.com/''
          [sample_entry ''https://example.com/a.js'' [js_hdr] (Some ''a'')])"
proof -
  have h1: "pages (hlog (sample_har ''https://example.com/''
      [sample_entry ''https://example.com/a.js'' [js_hdr] (Some ''a'')])) \<noteq> []"
    by (simp add: sample_har_def)
  have h2: "\<forall>e\<in>set (entries (hlog (sample_har ''https://example.com/''
      [sample_entry ''https://example.com/a.js'' [js_hdr] (Some ''a'')]))).
      js_count e = 0 \<or> ctext (content (response e)) \<noteq> None"
    by (simp add: sample_har_def sample_entry_def)
  show ?thesis
    using h1 h2 getJS_document_after [OF h1, of False] by blast
qed

text \<open>
  C8 as stated fails: after getJS, the bodiless JavaScript entry of this document holds
  a body text.
\<close>

theorem getJS_mutates_counterexample:
  "document_after (getJS (sample_har ''https://example.com/''
      [sample_entry ''https://example.com/a.js'' [js_hdr] None]) False)
     = Some (sample_har ''https://example.com/''
          [sample_entry ''https://example.com/a.js'' [js_hdr] (Some ''ADDED TEXT TO ANOMOLY'')]) \<and>
   sample_har ''https://example.com/''
          [sample_entry ''https://example.com/a.js'' [js_hdr] (Some ''ADDED TEXT TO ANOMOLY'')]
     \<noteq> sample_har ''https://example.com/'' [sample_entry ''https://example.com/a.js'' [js_hdr] None]"
  by (simp add: getJS_eq document_after_def sample_har_def mark_entry_def js_count_sample body_of_def
      placeholder_def) (simp add: sample_entry_def placeholder_def)

lemma record_fold_other:
  "\<forall>e'\<in>set es. js_count e' = 0 \<or> normalize_url pd (url (request e')) \<noteq> k
     \<Longrightarrow> map_of (fold (record_entry pd) es files) k = map_of files k"
  by (induction es arbitrary: files) (auto simp: record_entry_def update_conv')

lemma record_fold_last:
  assumes "js_count e \<noteq> 0"
    and "\<forall>e'\<in>set es2. js_count e' = 0 \<or> normalize_url pd (url (request e')) \<noteq> normalize_url pd (url (request e))"
  shows "map_of (fold (record_entry pd) (es1 @ e # es2) files) (normalize_url pd (url (request e)))
           = Some (asset_of e)"
  using assms by (simp add: record_fold_other) (simp add: record_entry_def update_conv')

text \<open>
  C6, as amended. For an entry with exactly one JavaScript content-type header and no
  body text, that is the last entry of its normalised URL, getJS does not fail and stores
  under that URL the MD5 fingerprint of the fixed placeholder
  \<open>ADDED TEXT TO ANOMOLY\<close>, so two such entries get the same fingerprint.
\<close>

theorem getJS_bodiless_placeholder:
  assumes "pages (hlog d) = p # ps" and "entries (hlog d) = es1 @ e # es2"
    and "js_count e = 1" and "ctext (content (response e)) = None"
    and "\<forall>e'\<in>set es2. js_count e' = 0 \<or>
           normalize_url (page_domain_of (title p)) (url (request e'))
             \<noteq> normalize_url (page_domain_of (title p)) (url (request e))"
  shows "\<exists>d' s. getJS d debug = Inr (d', s) \<and>
           map_of (JSFiles s) (normalize_url (page_domain_of (title p)) (url (request e))) =
             Some \<lparr>jsize = csize (content (response e)), hash = fingerprint placeholder,
                   jtext = ''redacted'', referer = referer_of (req_headers (request e))\<rparr> \<and>
           placeholder = ''ADDED TEXT TO ANOMOLY''"
proof -
  have a: "asset_of e = \<lparr>jsize = csize (content (response e)), hash = fingerprint placeholder,
                   jtext = ''redacted'', referer = referer_of (req_headers (request e))\<rparr>"
    using assms(3,4) by (simp add: asset_of_def body_of_def fingerprint_def)
  have "map_of (fold (record_entry (page_domain_of (title p))) (es1 @ e # es2) [])
          (normalize_url (page_domain_of (title p)) (url (request e))) = Some (asset_of e)"
    using assms(3,5) by (intro record_fold_last) simp_all
  with a assms(1,2) show ?thesis
    by (simp add: getJS_eq placeholder_def)
qed

theorem getJS_bodiless_placeholder_witness:
  "pages (hlog (sample_har ''https://example.com/'' [sample_entry ''https://example.com/a.js'' [js_hdr] None]))
     = \<lparr>title = ''https://example.com/'', startedDateTime = ''2020-05-01T10:00:00.000Z''\<rparr> # [] \<and>
   entries (hlog (sample_har ''https://example.com/'' [sample_entry ''https://example.com/a.js'' [js_hdr] None]))
     = [] @ sample_entry ''https://example.com/a.js'' [js_hdr] None # [] \<and>
   js_count (sample_entry ''https://example.com/a.js'' [js_hdr] None) = 1 \<and>
   ctext (content (response (sample_entry ''https://example.com/a.js'' [js_hdr] None))) = None \<and>
   (\<exists>d' s. getJS (sample_har ''https://example.com/'' [sample_entry ''https://example.com/a.js'' [js_hdr] None]) False
              = Inr (d', s) \<and>
      map_of (JSFiles s)
        (normalize_url (page_domain_of (title \<lparr>title = ''https://example.com/'',
            startedDateTime = ''2020-05-01T10:00:00.000Z''\<rparr>))
          (url (request (sample_entry ''https://example.com/a.js'' [js_hdr] None)))) =
        Some \<lparr>jsize = csize (content (response (sample_entry ''https://example.com/a.js'' [js_hdr] None))),
              hash = fingerprint placeholder, jtext = ''redacted'',
              referer = referer_of (req_headers (request (sample_entry ''https://example.com/a.js'' [js_hdr] None)))\<rparr> \<and>
      placeholder = ''ADDED TEXT TO ANOMOLY'')"
proof -
  have h1: "pages (hlog (sample_har ''https://example.com/'' [sample_entry ''https://example.com/a.js'' [js_hdr] None]))
     = \<lparr>title = ''https://example.com/'', startedDateTime = ''2020-05-01T10:00:00.000Z''\<rparr> # []"
    by (simp add: sample_har_def)
  have h2: "entries (hlog (sample_har ''https://example.com/'' [sample_entry ''https://example.com/a.js'' [js_hdr] None]))
     = [] @ sample_entry ''https://example.com/a.js'' [js_hdr] None # []"
    by (simp add: sample_har_def)
  have h3: "js_count (sample_entry ''https://example.com/a.js'' [js_hdr] None) = 1"
    by (rule js_count_sample)
  have h4: "ctext (content (response (sample_entry ''https://example.com/a.js'' [js_hdr] None))) = None"
    by (simp add: sample_entry_def)
  have h5: "\<forall>e'\<in>set []. js_count e' = 0 \<or>
      normalize_url (page_domain_of (title \<lparr>title = ''https://example.com/'',
            startedDateTime = ''2020-05-01T10:00:00.000Z''\<rparr>)) (url (request e'))
        \<noteq> normalize_url (page_domain_of (title \<lparr>title = ''https://example.com/'',
            startedDateTime = ''2020-05-01T10:00:00.000Z''\<rparr>))
            (url (request (sample_entry ''https://example.com/a.js'' [js_hdr] None)))"
    by simp
  show ?thesis
    using h1 h2 h3 h4 getJS_bodiless_placeholder [OF h1 h2 h3 h4 h5, of False] by blast
qed

lemma ex_urls:
  "page_domain_of ''https://example.com/'' = ''https://example.com''"
  "page_domain_of ''Example shop'' = []"
  "normalize_url ''https://example.com'' ''https://example.com/a.js'' = ''https://example.com/a.js''"
  "normalize_url [] ''http://cdn.example.com/v12/app.js?x=1''
     = ''http://cdn.example.com/v9999999999/app.js[qstring redacted]''"
  "redact_query ''http://cdn.example.com/v12/app.js?x=1''
     = ''http://cdn.example.com/v12/app.js[qstring redacted]''"
  by (simp_all add: re_defs)

text \<open>
  C6 as stated fails: the placeholder that is written and hashed is
  \<open>ADDED TEXT TO ANOMOLY\<close>, not \<open>ADDED TEXT TO ANOMALY\<close>.
\<close>

theorem getJS_placeholder_counterexample:
  "document_after (getJS (sample_har ''https://example.com/''
      [sample_entry ''https://example.com/a.js'' [js_hdr] None]) False)
     = Some (sample_har ''https://example.com/''
          [sample_entry ''https://example.com/a.js'' [js_hdr] (Some ''ADDED TEXT TO ANOMOLY'')]) \<and>
   hashes_of (getJS (sample_har ''https://example.com/''
      [sample_entry ''https://example.com/a.js'' [js_hdr] None]) False)
     = [(''https://example.com/a.js'', fingerprint ''ADDED TEXT TO ANOMOLY'')] \<and>
   ''ADDED TEXT TO ANOMOLY'' \<noteq> ''ADDED TEXT TO ANOMALY''"
  by (simp add: getJS_eq document_after_def hashes_of_def sample_har_def mark_entry_def
      record_entry_def asset_of_def js_count_sample body_of_def placeholder_def fingerprint_def ex_urls)
    (simp add: sample_entry_def ex_urls placeholder_def)

text \<open>
  C5. The \<open>md5\<close> object is made once for an entry, and \<open>update\<close> runs once for
  each JavaScript content-type header: for an entry with two such headers and the body
  \<open>a\<close>, the stored hash is the fingerprint of \<open>aa\<close>.
\<close>

theorem getJS_hashes_body_twice:
  "hashes_of (getJS (sample_har ''https://example.com/''
      [sample_entry ''https://example.com/a.js'' [js_hdr, js_hdr] (Some ''a'')]) False)
     = [(''https://example.com/a.js'', fingerprint ''aa'')]"
  by (simp add: getJS_eq hashes_of_def sample_har_def record_entry_def asset_of_def js_count_sample
      body_of_def fingerprint_def ex_urls utf8_def numeral_2_eq_2)
    (simp add: sample_entry_def ex_urls)

text \<open>
  C1. A title without an origin leaves \<open>page_domain\<close> empty, \<open>find\<close> returns 0 for
  every URL, and line 84 sends every URL to the version rewriting: the canonical URL of
  this entry is not its raw URL with only the query string replaced.
\<close>

theorem getJS_no_origin_rewrites_version:
  "find_domain ''Example shop'' = None \<and>
   map fst (hashes_of (getJS (sample_har ''Example shop''
      [sample_entry ''http://cdn.example.com/v12/app.js?x=1'' [js_hdr] (Some ''a'')]) False))
     = [''http://cdn.example.com/v9999999999/app.js[qstring redacted]''] \<and>
   redact_query ''http://cdn.example.com/v12/app.js?x=1''
     = ''http://cdn.example.com/v12/app.js[qstring redacted]''"
  by (simp add: getJS_eq hashes_of_def sample_har_def record_entry_def js_count_sample ex_urls)
    (simp add: sample_entry_def ex_urls find_domain_def domain_def chr_lower_def upper_chars_def
      lower_chars_def)

end
